theory Spec2Isabelle
  imports Complex_Main "HOL-Library.Sublist"
begin

section \<open>Python values used by the downloader\<close>

text \<open>
  Strings are lists of \<^typ>\<open>char\<close>, read as code points below 256. Python integers are
  \<^typ>\<open>int\<close>. Exceptions are values of \<open>exn\<close>; every class below is a subclass of
  Python's \<open>Exception\<close>. \<open>ClientError\<close> stands for \<open>aiohttp.ClientError\<close> and its
  subclasses, \<open>TimeoutError\<close> for \<open>asyncio.TimeoutError\<close>, \<open>OSError\<close> for file-system
  failures.
\<close>

datatype exn = ValueError | OverflowError | ClientError | TimeoutError | OSError

subsection \<open>Decimal output\<close>

definition digit_char :: "int \<Rightarrow> char" where
  "digit_char d = ''0123456789'' ! nat d"

function show_dec :: "int \<Rightarrow> string" where
  "show_dec n = (if n < 10 then [digit_char n] else show_dec (n div 10) @ [digit_char (n mod 10)])"
  by pat_completeness auto
termination
  by (relation "measure nat") auto

declare show_dec.simps [simp del]

text \<open>
  A Python \<open>float\<close> is an IEEE-754 double. Every value the size formatter handles is an
  integer scaled by a power of 1024, so it is kept as an exact rational. The only
  rounding happens when an \<open>int\<close> is divided by 1024 for the first time:
  \<open>round_to_double\<close> is the integer with 53 significant bits nearest to \<open>n\<close>, ties to
  even, and the true division raises \<open>OverflowError\<close> when the quotient exceeds the
  double range.
\<close>

function excess_bits :: "int \<Rightarrow> nat" where
  "excess_bits n = (if n < 2 ^ 53 then 0 else Suc (excess_bits (n div 2)))"
  by pat_completeness auto
termination
  by (relation "measure nat") auto

declare excess_bits.simps [simp del]

definition round_to_double :: "int \<Rightarrow> int" where
  "round_to_double n =
     (if n < 2 ^ 53 then n
      else let e = excess_bits n; q = n div 2 ^ e; r = n mod 2 ^ e; h = 2 ^ (e - 1)
           in (if r < h then q else if h < r then q + 1 else if even q then q else q + 1) * 2 ^ e)"

datatype pynum = PyInt int | PyFloat rat

fun lt_1024 :: "pynum \<Rightarrow> bool" where
  "lt_1024 (PyInt n) = (n < 1024)"
| "lt_1024 (PyFloat x) = (x < 1024)"

fun truediv_1024 :: "pynum \<Rightarrow> exn + pynum" where
  "truediv_1024 (PyInt n) =
     (if 2 ^ 1034 \<le> round_to_double n then Inl OverflowError
      else Inr (PyFloat (of_int (round_to_double n) / 1024)))"
| "truediv_1024 (PyFloat x) = Inr (PyFloat (x / 1024))"

text \<open>
  The format \<open>.1f\<close> prints the decimal with one fractional digit nearest to the exact
  value of the double, ties to even.
\<close>

definition round_half_even :: "rat \<Rightarrow> int" where
  "round_half_even x =
     (let f = \<lfloor>x\<rfloor>; r = x - of_int f
      in if r < 1 / 2 then f else if 1 / 2 < r then f + 1 else if even f then f else f + 1)"

definition format_1f :: "rat \<Rightarrow> string" where
  "format_1f x =
     (let t = round_half_even (x * 10) in show_dec (t div 10) @ ''.'' @ show_dec (t mod 10))"

text \<open>An \<open>int\<close> reaches the format only when it is below 1024, where \<open>float(n)\<close> is \<open>n\<close>.\<close>

fun format_1f_num :: "pynum \<Rightarrow> string" where
  "format_1f_num (PyInt n) = format_1f (of_int n)"
| "format_1f_num (PyFloat x) = format_1f x"

section \<open>The listing parser: derived fields\<close>

subsection \<open>\<open>_format_file_size\<close>\<close>

text \<open>
  \<^verbatim>\<open>
  for unit in ['B', 'KB', 'MB', 'GB']:
      if size_bytes < 1024:
          return f"{size_bytes:.1f} {unit}"
      size_bytes /= 1024
  return f"{size_bytes:.1f} TB"
  \<close>
\<close>

fun format_units :: "string list \<Rightarrow> pynum \<Rightarrow> exn + string" where
  "format_units [] size_bytes = Inr (format_1f_num size_bytes @ '' TB'')"
| "format_units (unit # units) size_bytes =
     (if lt_1024 size_bytes then Inr (format_1f_num size_bytes @ '' '' @ unit)
      else case truediv_1024 size_bytes of
             Inl e \<Rightarrow> Inl e
           | Inr size_bytes' \<Rightarrow> format_units units size_bytes')"

definition format_file_size :: "int \<Rightarrow> exn + string" where
  "format_file_size size_bytes = format_units [''B'', ''KB'', ''MB'', ''GB''] (PyInt size_bytes)"

subsection \<open>\<open>_get_file_type\<close>\<close>

definition endswith :: "string \<Rightarrow> string \<Rightarrow> bool" where
  "endswith s suf = (length suf \<le> length s \<and> drop (length s - length suf) s = suf)"

definition get_file_type :: "string \<Rightarrow> string" where
  "get_file_type filename =
     (if endswith filename ''.grib'' \<or> endswith filename ''.grib2'' then ''GRIB''
      else if endswith filename ''.nc'' \<or> endswith filename ''.netcdf'' then ''NetCDF''
      else if endswith filename ''.idx'' then ''Index''
      else ''Unknown'')"

section \<open>Configuration and file records\<close>

text \<open>\<open>DownloadConfig\<close>; the output directory is kept as the string of its path.\<close>

record config =
  base_url :: string
  output_dir :: string
  max_concurrent_downloads :: int
  timeout_seconds :: int
  chunk_size :: int

text \<open>
  \<open>urljoin\<close> and the \<open>/\<close> of \<open>pathlib\<close> belong to the standard library; their results are
  kept as the unevaluated joins of their arguments.
\<close>

datatype url = Urljoin string string

datatype path = PathJoin string string string

text \<open>
  The dictionary \<open>file_info\<close> built by \<open>_parse_data_files\<close>, with one field per key. The
  keys \<open>'size'\<close> and \<open>'type'\<close> are the fields \<open>size_s\<close> and \<open>type_s\<close>.
\<close>

record file_info =
  filename :: string
  url :: url
  date :: string
  forecast_time :: string
  model :: string
  resolution :: string
  data_type :: string
  forecast_hour :: string
  size_s :: string
  raw_size :: int
  type_s :: string
  modified :: string

section \<open>Regular expressions\<close>

text \<open>
  The patterns of the program, matched as Python's \<open>re\<close> does: by backtracking, the
  alternatives of \<open>|\<close> tried from left to right, \<open>?\<close>, \<open>*\<close> and \<open>+\<close> greedy. \<open>*\<close> and
  \<open>+\<close> stand over character classes only, as in every pattern of the program.
  \<open>Grp\<close> is a capturing group. With the flag \<open>IGNORECASE\<close> a letter matches both of its
  cases.
\<close>

definition is_digit :: "char \<Rightarrow> bool" where
  "is_digit c = (48 \<le> (of_char c :: nat) \<and> (of_char c :: nat) \<le> 57)"

text \<open>The code points below 256 that Python takes for whitespace, in \<open>\s\<close> and in \<open>strip\<close>.\<close>

definition is_space :: "char \<Rightarrow> bool" where
  "is_space c = ((of_char c :: nat) \<in> {9, 10, 11, 12, 13, 28, 29, 30, 31, 32, 133, 160})"

definition to_lower :: "char \<Rightarrow> char" where
  "to_lower c =
     (if 65 \<le> (of_char c :: nat) \<and> (of_char c :: nat) \<le> 90 then char_of ((of_char c :: nat) + 32)
      else c)"

datatype cls = Digit | Space | OneOf string | NotIn string

datatype rx =
    Lit char
  | Cls cls
  | Seq rx rx
  | Alt rx rx
  | Opt rx
  | Star cls
  | Plus cls
  | Grp rx

fun lit_match :: "bool \<Rightarrow> char \<Rightarrow> char \<Rightarrow> bool" where
  "lit_match ignorecase c x = (if ignorecase then to_lower x = to_lower c else x = c)"

fun cls_match :: "bool \<Rightarrow> cls \<Rightarrow> char \<Rightarrow> bool" where
  "cls_match ignorecase Digit x = is_digit x"
| "cls_match ignorecase Space x = is_space x"
| "cls_match ignorecase (OneOf cs) x = list_ex (\<lambda>c. lit_match ignorecase c x) cs"
| "cls_match ignorecase (NotIn cs) x = (\<not> list_ex (\<lambda>c. lit_match ignorecase c x) cs)"

text \<open>
  What can follow a greedy repetition of a class: the rest after the longest run
  first, then after each shorter one.
\<close>

fun star_splits :: "(char \<Rightarrow> bool) \<Rightarrow> string \<Rightarrow> string list" where
  "star_splits p [] = [[]]"
| "star_splits p (c # cs) = (if p c then star_splits p cs else []) @ [c # cs]"

definition plus_splits :: "(char \<Rightarrow> bool) \<Rightarrow> string \<Rightarrow> string list" where
  "plus_splits p s = (case s of [] \<Rightarrow> [] | c # cs \<Rightarrow> if p c then star_splits p cs else [])"

text \<open>
  \<open>ms ignorecase r s\<close> lists every way \<open>r\<close> matches a prefix of \<open>s\<close>, in the order the
  backtracking matcher tries them: the captured groups and the rest of \<open>s\<close>. The first
  entry is the match Python reports.
\<close>

fun ms :: "bool \<Rightarrow> rx \<Rightarrow> string \<Rightarrow> (string list \<times> string) list" where
  "ms ic (Lit c) s = (case s of [] \<Rightarrow> [] | x # xs \<Rightarrow> if lit_match ic c x then [([], xs)] else [])"
| "ms ic (Cls k) s = (case s of [] \<Rightarrow> [] | x # xs \<Rightarrow> if cls_match ic k x then [([], xs)] else [])"
| "ms ic (Seq a b) s =
     concat (map (\<lambda>(g, r). map (\<lambda>(g', r'). (g @ g', r')) (ms ic b r)) (ms ic a s))"
| "ms ic (Alt a b) s = ms ic a s @ ms ic b s"
| "ms ic (Opt a) s = ms ic a s @ [([], s)]"
| "ms ic (Star k) s = map (\<lambda>r. ([], r)) (star_splits (cls_match ic k) s)"
| "ms ic (Plus k) s = map (\<lambda>r. ([], r)) (plus_splits (cls_match ic k) s)"
| "ms ic (Grp a) s = map (\<lambda>(g, r). (take (length s - length r) s # g, r)) (ms ic a s)"

declare ms.simps [simp del]

fun lits :: "string \<Rightarrow> rx \<Rightarrow> rx" where
  "lits [] r = r"
| "lits (c # cs) r = Seq (Lit c) (lits cs r)"

text \<open>\<open>re.search\<close>: the groups of the leftmost match.\<close>

fun re_search :: "bool \<Rightarrow> rx \<Rightarrow> string \<Rightarrow> string list option" where
  "re_search ic r [] = (case ms ic r [] of [] \<Rightarrow> None | (g, rest) # other \<Rightarrow> Some g)"
| "re_search ic r (c # cs) =
     (case ms ic r (c # cs) of [] \<Rightarrow> re_search ic r cs | (g, rest) # other \<Rightarrow> Some g)"

text \<open>
  \<open>re.findall\<close>: the groups of the successive matches, from left to right, each search
  starting where the last match ended. \<open>skip\<close> counts the characters of the last match
  still to pass. The patterns used here match no empty string.
\<close>

fun findall_from :: "bool \<Rightarrow> rx \<Rightarrow> nat \<Rightarrow> string \<Rightarrow> string list list" where
  "findall_from ic r skip [] = []"
| "findall_from ic r skip (c # cs) =
     (if 0 < skip then findall_from ic r (skip - 1) cs
      else case ms ic r (c # cs) of
             [] \<Rightarrow> findall_from ic r 0 cs
           | (g, rest) # other \<Rightarrow> g # findall_from ic r (length cs - length rest) cs)"

definition re_findall :: "bool \<Rightarrow> rx \<Rightarrow> string \<Rightarrow> string list list" where
  "re_findall ic r s = findall_from ic r 0 s"

subsection \<open>Small string functions\<close>

text \<open>\<open>int\<close> of a string of digits, with the whitespace around it that \<open>int\<close> ignores.\<close>

definition int_of_string :: "string \<Rightarrow> int" where
  "int_of_string s =
     foldl (\<lambda>n c. 10 * n + (int (of_char c) - 48)) 0 (filter (\<lambda>c. \<not> is_space c) s)"

definition strip :: "string \<Rightarrow> string" where
  "strip s = rev (dropWhile is_space (rev (dropWhile is_space s)))"

section \<open>The listing parser\<close>

subsection \<open>\<open>_parse_data_files\<close>\<close>

definition dquote :: char where
  "dquote = CHR 0x22"

text \<open>
  \<^verbatim>\<open><a href="([^"]+\.(?:grib2?|index|nc))"[^>]*>([^<]+)</a>\s+\<close>
  \<^verbatim>\<open>(\d{2}-\d{2}-\d{4}\s+\d{2}:\d{2})\s+(\d+)\s+(\d+)\<close>
\<close>

definition file_pattern :: rx where
  "file_pattern =
     lits ''<a href='' (Seq (Lit dquote)
     (Seq (Grp (Seq (Plus (NotIn [dquote])) (Seq (Lit CHR ''.'')
            (Alt (lits ''grib'' (Opt (Lit CHR ''2''))) (Alt (lits ''inde'' (Lit CHR ''x'')) (lits ''n'' (Lit CHR ''c'')))))))
     (Seq (Lit dquote) (Seq (Star (NotIn ''>'')) (Seq (Lit CHR ''>'')
     (Seq (Grp (Plus (NotIn ''<'')))
     (lits ''</a>'' (Seq (Plus Space)
     (Seq (Grp (Seq (Cls Digit) (Seq (Cls Digit) (Seq (Lit CHR ''-'')
            (Seq (Cls Digit) (Seq (Cls Digit) (Seq (Lit CHR ''-'')
            (Seq (Cls Digit) (Seq (Cls Digit) (Seq (Cls Digit) (Seq (Cls Digit)
            (Seq (Plus Space)
            (Seq (Cls Digit) (Seq (Cls Digit) (Seq (Lit CHR '':'')
            (Seq (Cls Digit) (Cls Digit)))))))))))))))))
     (Seq (Plus Space) (Seq (Grp (Plus Digit)) (Seq (Plus Space) (Grp (Plus Digit))))))))))))))"

text \<open>\<^verbatim>\<open>-(\d+)h-\<close>, searched in the display name without \<open>IGNORECASE\<close>.\<close>

definition hour_pattern :: rx where
  "hour_pattern = Seq (Lit CHR ''-'') (Seq (Grp (Plus Digit)) (Seq (Lit CHR ''h'') (Lit CHR ''-'')))"

definition forecast_hour_of :: "string \<Rightarrow> string" where
  "forecast_hour_of name =
     (case re_search False hour_pattern name of
        None \<Rightarrow> ''unknown''
      | Some groups \<Rightarrow> hd groups)"

text \<open>
  The loop over the matches. Every match of \<open>file_pattern\<close> has five groups. The only
  step that can raise is the size formatting (the true division of a huge size);
  \<open>int\<close> is applied to digits only, within the interpreter's limit on their number.
\<close>

fun build_files ::
  "string \<Rightarrow> string \<Rightarrow> string \<Rightarrow> string \<Rightarrow> string \<Rightarrow> string \<Rightarrow> string list list
     \<Rightarrow> exn + file_info list" where
  "build_files base date' forecast_time' model' resolution' data_type' [] = Inr []"
| "build_files base date' forecast_time' model' resolution' data_type' (groups # matches) =
     (case groups of
        [href, name, date_time, size_digits, file_id] \<Rightarrow>
          (case format_file_size (int_of_string size_digits) of
             Inl e \<Rightarrow> Inl e
           | Inr human \<Rightarrow>
               (case build_files base date' forecast_time' model' resolution' data_type' matches of
                  Inl e \<Rightarrow> Inl e
                | Inr files \<Rightarrow>
                    Inr (\<lparr>filename = strip name, url = Urljoin base href, date = date',
                          forecast_time = forecast_time', model = model',
                          resolution = resolution', data_type = data_type',
                          forecast_hour = forecast_hour_of name, size_s = human,
                          raw_size = int_of_string size_digits,
                          type_s = get_file_type name, modified = date_time\<rparr> # files)))
      | other \<Rightarrow> build_files base date' forecast_time' model' resolution' data_type' matches)"

definition parse_data_files ::
  "config \<Rightarrow> string \<Rightarrow> string \<Rightarrow> string \<Rightarrow> string \<Rightarrow> string \<Rightarrow> string \<Rightarrow> exn + file_info list" where
  "parse_data_files cfg html_content date' forecast_time' model' resolution' data_type' =
     build_files
       (base_url cfg @ date' @ ''/'' @ forecast_time' @ ''/'' @ model' @ ''/'' @ resolution' @ ''/''
          @ data_type' @ ''/'')
       date' forecast_time' model' resolution' data_type'
       (re_findall True file_pattern html_content)"

subsection \<open>\<open>validate_date_format\<close>\<close>






subsection \<open>\<open>list_available_files\<close>\<close>







section \<open>The download orchestrator\<close>

subsection \<open>Collaborators of one transfer\<close>

text \<open>
  The file system maps the path of every regular file to its bytes. What the transport
  and the file system answer during one transfer is an \<open>attempt\<close>: whether creating the
  parent directory raises, what the GET returns or raises, whether opening the
  destination for writing raises, and the stream of the body: a chunk that is read and
  written, a chunk whose write raises, or a read that raises. \<open>content_length\<close> is the
  result of \<open>int(response.headers.get('content-length', 0))\<close>. Unlinking an existing
  regular file succeeds (the file-system collaborator supports deleting a partially
  written file). Progress and console output do not touch the file system or the
  result and are left out.
\<close>

type_synonym fs = "path \<rightharpoonup> string"




subsection \<open>\<open>download_file\<close>\<close>





subsection \<open>\<open>download_files\<close>\<close>


datatype task = Waiting | Running | Done "exn + bool"


record loop_state =
  permits :: nat
  tasks :: "task list"
  store :: fs
  attempted :: "nat list"




fun is_Done :: "task \<Rightarrow> bool" where
  "is_Done (Done r) = True"
| "is_Done t = False"






subsection \<open>Notions used to state the properties\<close>






text \<open>The steps a task still has to take: two while it waits, one while it runs.\<close>

fun weight :: "task \<Rightarrow> nat" where
  "weight Waiting = 2"
| "weight Running = 1"
| "weight (Done r) = 0"

definition remaining :: "loop_state \<Rightarrow> nat" where
  "remaining s = sum_list (map weight (tasks s))"

text \<open>
  The hour token of the specification: a non-empty run of digits between \<open>-\<close> and
  \<open>h-\<close> somewhere in the name. \<open>hour_at\<close> reads such a token at the start of a string.
\<close>

definition hour_token :: "string \<Rightarrow> string \<Rightarrow> bool" where
  "hour_token name ds =
     (ds \<noteq> [] \<and> list_all is_digit ds \<and> (\<exists>pre post. name = pre @ ''-'' @ ds @ ''h-'' @ post))"

definition hour_at :: "string \<Rightarrow> string option" where
  "hour_at s =
     (case s of
        [] \<Rightarrow> None
      | c # t \<Rightarrow>
          if c = CHR ''-'' \<and> takeWhile is_digit t \<noteq> [] \<and> take 2 (dropWhile is_digit t) = ''h-''
          then Some (takeWhile is_digit t) else None)"

text \<open>
  The kind by suffix with the suffix compared without regard to case, as step 1 of the
  parser admits file names.
\<close>

definition kind_by_suffix_ci :: "string \<Rightarrow> string" where
  "kind_by_suffix_ci name =
     (let lower = map to_lower name in
      if endswith lower ''.grib'' \<or> endswith lower ''.grib2'' then ''GRIB''
      else if endswith lower ''.nc'' \<or> endswith lower ''.netcdf'' then ''NetCDF''
      else if endswith lower ''.idx'' then ''Index''
      else ''Unknown'')"







subsection \<open>Example data\<close>

definition example_config :: config where
  "example_config = \<lparr>base_url = ''https://data.ecmwf.int/forecasts/'', output_dir = ''ecmwf_data'',
     max_concurrent_downloads = 5, timeout_seconds = 300, chunk_size = 8192\<rparr>"










definition listing_line :: "string \<Rightarrow> string \<Rightarrow> string \<Rightarrow> string" where
  "listing_line href name columns =
     ''<a href='' @ [dquote] @ href @ [dquote] @ ''>'' @ name @ ''</a>'' @ columns"

definition example_listing :: string where
  "example_listing =
     listing_line ''20250617120000-6h-oper-fc.grib2'' ''20250617120000-6h-oper-fc.grib2''
       ''  17-06-2025 12:00  1536  7''"

definition upper_case_listing :: string where
  "upper_case_listing = listing_line ''F.GRIB2'' ''F.GRIB2'' ''  17-06-2025 12:00  500  1''"

section \<open>Size formatting\<close>

lemma excess_bits_range:
  "2 ^ 53 \<le> n \<Longrightarrow> 0 < excess_bits n \<and> 2 ^ 52 \<le> n div 2 ^ excess_bits n"
proof (induction n rule: excess_bits.induct)
  case (1 n)
  show ?case
  proof (cases "n div 2 < 2 ^ 53")
    case True
    then have e: "excess_bits (n div 2) = 0"
      by (simp add: excess_bits.simps [of "n div 2"])
    from "1.prems" have "excess_bits n = Suc 0"
      by (simp add: excess_bits.simps [of n] e)
    moreover from "1.prems" have "2 ^ 52 \<le> n div 2" by simp
    ultimately show ?thesis by simp
  next
    case False
    then have ge: "2 ^ 53 \<le> n div 2" by simp
    from "1.prems" have n: "\<not> n < 2 ^ 53" by simp
    from "1.IH" [OF n ge] have ih: "2 ^ 52 \<le> n div 2 div 2 ^ excess_bits (n div 2)"
      by simp
    from n have s: "excess_bits n = Suc (excess_bits (n div 2))"
      by (simp add: excess_bits.simps [of n])
    have "n div 2 ^ Suc (excess_bits (n div 2)) = n div 2 div 2 ^ excess_bits (n div 2)"
      by (simp add: zdiv_zmult2_eq)
    with ih s show ?thesis by simp
  qed
qed

lemma round_to_double_small: "n < 2 ^ 53 \<Longrightarrow> round_to_double n = n"
  by (simp add: round_to_double_def)

lemma round_to_double_large:
  assumes "2 ^ 53 \<le> n"
  shows "2 ^ 53 \<le> round_to_double n"
proof -
  define e where "e = excess_bits n"
  define q where "q = n div 2 ^ e"
  from excess_bits_range [OF assms] have e: "0 < e" and q: "2 ^ 52 \<le> q"
    by (simp_all add: e_def q_def)
  have p: "(2::int) \<le> 2 ^ e"
    using e by (cases e) simp_all
  have m: "2 ^ 52 * 2 \<le> k * 2 ^ e" if "q \<le> k" for k :: int
  proof -
    from q that have "2 ^ 52 \<le> k" by simp
    then show ?thesis using p by (intro mult_mono) simp_all
  qed
  from assms have "round_to_double n =
      (if n mod 2 ^ e < 2 ^ (e - 1) then q
       else if 2 ^ (e - 1) < n mod 2 ^ e then q + 1
       else if even q then q else q + 1) * 2 ^ e"
    by (simp add: round_to_double_def Let_def e_def q_def)
  moreover have "2 ^ 52 * 2 \<le> q * 2 ^ e" "2 ^ 52 * 2 \<le> (q + 1) * 2 ^ e"
    by (rule m, simp)+
  ultimately show ?thesis by (simp split: if_splits)
qed

lemma excess_bits_small: "n < 2 ^ 53 \<Longrightarrow> excess_bits n = 0"
  by (subst excess_bits.simps) simp

lemma excess_bits_step: "2 ^ 53 \<le> n \<Longrightarrow> excess_bits n = Suc (excess_bits (n div 2))"
  by (subst excess_bits.simps) simp

lemma power_53_le: "(2::int) ^ 53 \<le> 2 ^ (53 + k)"
  by (rule power_increasing) simp_all

lemma excess_bits_power: "excess_bits (2 ^ (53 + k)) = Suc k"
proof (induction k)
  case 0
  have "excess_bits (2 ^ 53 div 2) = 0" by (rule excess_bits_small) simp
  moreover have "excess_bits (2 ^ 53) = Suc (excess_bits (2 ^ 53 div 2))"
    by (rule excess_bits_step) simp
  ultimately show ?case by simp
next
  case (Suc k)
  have "excess_bits (2 ^ (53 + Suc k)) = Suc (excess_bits (2 ^ (53 + Suc k) div 2))"
    by (rule excess_bits_step) (rule power_53_le)
  moreover have "(2::int) ^ (53 + Suc k) = 2 * 2 ^ (53 + k)"
    by (simp only: add_Suc_right power_Suc)
  then have "(2::int) ^ (53 + Suc k) div 2 = 2 ^ (53 + k)" by (simp only: nonzero_mult_div_cancel_left)
  ultimately show ?case using Suc.IH by (simp only:)
qed

lemma round_to_double_power: "round_to_double (2 ^ (53 + k)) = 2 ^ (53 + k)"
proof -
  have p: "(2::int) ^ (53 + k) = 2 ^ 52 * 2 ^ Suc k" by (simp add: power_add)
  have q: "(2::int) ^ (53 + k) div 2 ^ Suc k = 2 ^ 52" unfolding p by simp
  have r: "(2::int) ^ (53 + k) mod 2 ^ Suc k = 0" unfolding p by simp
  have n: "\<not> (2::int) ^ (53 + k) < 2 ^ 53" using power_53_le [of k] by linarith
  have "round_to_double (2 ^ (53 + k)) =
      (let e = excess_bits (2 ^ (53 + k)); q = (2::int) ^ (53 + k) div 2 ^ e;
           r = (2::int) ^ (53 + k) mod 2 ^ e; h = (2::int) ^ (e - 1)
       in (if r < h then q else if h < r then q + 1 else if even q then q else q + 1) * 2 ^ e)"
    unfolding round_to_double_def using n by (simp only: if_False)
  also have "\<dots> = 2 ^ 52 * 2 ^ Suc k"
    unfolding excess_bits_power Let_def q r by simp
  finally show ?thesis using p by simp
qed

lemma round_half_even_nearest: "\<bar>rat_of_int (round_half_even x) - x\<bar> \<le> 1 / 2"
proof -
  have a: "rat_of_int \<lfloor>x\<rfloor> \<le> x" and b: "x < rat_of_int \<lfloor>x\<rfloor> + 1"
    by linarith+
  show ?thesis
    using a b by (auto simp: round_half_even_def Let_def abs_le_iff)
qed

text \<open>
  C6, as the code has it. For a non-negative size whose quotient by 1024 is in the
  double range, \<open>_format_file_size\<close> divides by 1024 through the units B, KB, MB, GB,
  prints the running value with one decimal at the first unit where it is below 1024,
  and falls through to TB otherwise. Below \<open>2 ^ 53\<close> the running value is exactly the
  size divided by the power of 1024. The decimal printed is the multiple of a tenth
  nearest to the value. 1536 gives "1.5 KB", 500 gives "500.0 B" and 1073741824 gives
  "1.0 GB".
\<close>

theorem format_file_size_units:
  assumes "0 \<le> n" and "round_to_double n < 2 ^ 1034"
  shows "format_file_size n = Inr
     (if n < 1024 then format_1f (of_int n) @ '' B''
      else if n < 1024 ^ 2 then format_1f (of_int (round_to_double n) / 1024) @ '' KB''
      else if n < 1024 ^ 3 then format_1f (of_int (round_to_double n) / 1024 / 1024) @ '' MB''
      else if n < 1024 ^ 4
        then format_1f (of_int (round_to_double n) / 1024 / 1024 / 1024) @ '' GB''
      else format_1f (of_int (round_to_double n) / 1024 / 1024 / 1024 / 1024) @ '' TB'')
    \<and> (if n < 2 ^ 53 then round_to_double n = n else 2 ^ 53 \<le> round_to_double n)
    \<and> format_1f v =
        show_dec (round_half_even (v * 10) div 10) @ ''.'' @ show_dec (round_half_even (v * 10) mod 10)
    \<and> \<bar>rat_of_int (round_half_even (v * 10)) - v * 10\<bar> \<le> 1 / 2
    \<and> format_file_size 1536 = Inr ''1.5 KB''
    \<and> format_file_size 500 = Inr ''500.0 B''
    \<and> format_file_size 1073741824 = Inr ''1.0 GB''"
proof -
  have closed: "format_file_size n = Inr
     (if n < 1024 then format_1f (of_int n) @ '' B''
      else if n < 1024 ^ 2 then format_1f (of_int (round_to_double n) / 1024) @ '' KB''
      else if n < 1024 ^ 3 then format_1f (of_int (round_to_double n) / 1024 / 1024) @ '' MB''
      else if n < 1024 ^ 4
        then format_1f (of_int (round_to_double n) / 1024 / 1024 / 1024) @ '' GB''
      else format_1f (of_int (round_to_double n) / 1024 / 1024 / 1024 / 1024) @ '' TB'')"
  proof (cases "n < 2 ^ 53")
    case True
    then have r: "round_to_double n = n" by (rule round_to_double_small)
    have c: "(rat_of_int n / 1024 < 1024) = (n < 1024 ^ 2)"
      "(rat_of_int n / 1024 / 1024 < 1024) = (n < 1024 ^ 3)"
      "(rat_of_int n / 1024 / 1024 / 1024 < 1024) = (n < 1024 ^ 4)"
      by (simp_all add: divide_less_eq)
    from assms True show ?thesis
      by (simp add: format_file_size_def r c)
  next
    case False
    then have "2 ^ 53 \<le> n" by simp
    then have "2 ^ 53 \<le> round_to_double n" by (rule round_to_double_large)
    then have "2 ^ 53 \<le> rat_of_int (round_to_double n)"
      by (metis of_int_le_iff of_int_numeral of_int_power)
    then have c: "\<not> rat_of_int (round_to_double n) / 1024 < 1024"
      "\<not> rat_of_int (round_to_double n) / 1024 / 1024 < 1024"
      "\<not> rat_of_int (round_to_double n) / 1024 / 1024 / 1024 < 1024"
      by (simp_all add: divide_less_eq)
    from assms False c show ?thesis
      by (simp add: format_file_size_def)
  qed
  have range: "if n < 2 ^ 53 then round_to_double n = n else 2 ^ 53 \<le> round_to_double n"
  proof (cases "n < 2 ^ 53")
    case True
    then show ?thesis using round_to_double_small [of n] by simp
  next
    case False
    then have "2 ^ 53 \<le> n" by simp
    then have "2 ^ 53 \<le> round_to_double n" by (rule round_to_double_large)
    with False show ?thesis by simp
  qed
  have e1: "format_file_size 1536 = Inr ''1.5 KB''" by code_simp
  have e2: "format_file_size 500 = Inr ''500.0 B''" by code_simp
  have e3: "format_file_size 1073741824 = Inr ''1.0 GB''" by code_simp
  have fmt: "format_1f v =
      show_dec (round_half_even (v * 10) div 10) @ ''.'' @ show_dec (round_half_even (v * 10) mod 10)"
    by (simp add: format_1f_def Let_def)
  have near: "\<bar>rat_of_int (round_half_even (v * 10)) - v * 10\<bar> \<le> 1 / 2"
    by (rule round_half_even_nearest)
  from closed range fmt near e1 e2 e3 show ?thesis by blast
qed

theorem format_file_size_units_witness:
  "(0::int) \<le> 1280 \<and> round_to_double 1280 < 2 ^ 1034
   \<and> format_file_size 1280 = Inr ''1.2 KB''"
proof -
  have h1: "(0::int) \<le> 1280" by simp
  have h2: "round_to_double 1280 < 2 ^ 1034" by (simp add: round_to_double_def)
  have f: "format_1f (rat_of_int 1280 / 1024) = ''1.2''" by code_simp
  have r: "round_to_double 1280 = 1280" by (simp add: round_to_double_def)
  from format_file_size_units [OF h1 h2]
  have "format_file_size 1280 = Inr (format_1f (rat_of_int (round_to_double 1280) / 1024) @ '' KB'')"
    by simp
  with h1 h2 f r show ?thesis by simp
qed

text \<open>
  For the size \<open>2 ^ 1034\<close> the first division by 1024 leaves the double range and
  \<open>_format_file_size\<close> raises \<open>OverflowError\<close>.
\<close>

theorem format_file_size_overflow_counterexample:
  "format_file_size (2 ^ 1034) = Inl OverflowError"
proof -
  have "round_to_double (2 ^ (53 + 981)) = 2 ^ (53 + 981)" by (rule round_to_double_power)
  then have "round_to_double (2 ^ 1034) = 2 ^ 1034" by simp
  then show ?thesis by (simp add: format_file_size_def)
qed

section \<open>One transfer\<close>





section \<open>The batch\<close>











lemma remaining_zero_done: "remaining s = 0 \<Longrightarrow> list_all is_Done (tasks s)"
proof -
  have "sum_list (map weight ts) = 0 \<Longrightarrow> list_all is_Done ts" for ts
  proof (induction ts)
    case Nil
    then show ?case by simp
  next
    case (Cons t ts)
    then show ?case by (cases t) auto
  qed
  then show "remaining s = 0 \<Longrightarrow> list_all is_Done (tasks s)" by (simp add: remaining_def)
qed






section \<open>Properties of one transfer\<close>





section \<open>Properties of the batch\<close>










section \<open>Properties of the listing parser\<close>

lemma star_splits_concat:
  assumes "\<And>c cs. p c \<Longrightarrow> F (c # cs) = []"
  shows "concat (map F (star_splits p s)) = F (dropWhile p s)"
proof (induction s)
  case Nil
  then show ?case by simp
next
  case (Cons c cs)
  then show ?case by (simp add: assms)
qed

lemma plus_splits_concat:
  assumes "\<And>c cs. p c \<Longrightarrow> F (c # cs) = []"
  shows "concat (map F (plus_splits p s)) =
           (if takeWhile p s \<noteq> [] then F (dropWhile p s) else [])"
proof (cases s)
  case Nil
  then show ?thesis by (simp add: plus_splits_def)
next
  case (Cons c cs)
  then show ?thesis by (simp add: plus_splits_def star_splits_concat [of p F, OF assms])
qed

lemma is_digit_not_h: "is_digit c \<Longrightarrow> c \<noteq> CHR ''h''"
  by (auto simp: is_digit_def)

lemma length_dropWhile_take: "take (length t - length (dropWhile p t)) t = takeWhile p t"
  by (induction t) (auto simp: Suc_diff_le length_dropWhile_le)

lemma ms_Seq_Lit:
  "ms ic (Seq (Lit c) b) s =
     (case s of [] \<Rightarrow> [] | x # xs \<Rightarrow> if lit_match ic c x then ms ic b xs else [])"
  by (cases s) (simp_all add: ms.simps(1,3) del: lit_match.simps)

lemma ms_Lit2:
  "ms ic (Seq (Lit c) (Lit d)) s =
     (case s of x # y # rest \<Rightarrow> if lit_match ic c x \<and> lit_match ic d y then [([], rest)] else []
      | other \<Rightarrow> [])"
  by (simp add: ms_Seq_Lit ms.simps(1) del: lit_match.simps split: list.splits)

lemma ms_Seq_Grp_Plus:
  "ms ic (Seq (Grp (Plus k)) b) t =
     concat (map (\<lambda>r. map (\<lambda>(g', r'). (take (length t - length r) t # g', r')) (ms ic b r))
       (plus_splits (cls_match ic k) t))"
  by (simp add: ms.simps(3,7,8) comp_def)

lemma ms_h_dash:
  "map (\<lambda>(g', r'). (u # g', r')) (ms False (Seq (Lit CHR ''h'') (Lit CHR ''-'')) r) =
     (if take 2 r = ''h-'' then [([u], drop 2 r)] else [])"
proof (cases r)
  case Nil
  then show ?thesis by (simp add: ms_Lit2)
next
  case (Cons a r1)
  then show ?thesis by (cases r1) (auto simp: ms_Lit2)
qed

lemma ms_hour_tail:
  "ms False (Seq (Grp (Plus Digit)) (Seq (Lit CHR ''h'') (Lit CHR ''-''))) t =
     (if takeWhile is_digit t \<noteq> [] \<and> take 2 (dropWhile is_digit t) = ''h-''
      then [([takeWhile is_digit t], drop 2 (dropWhile is_digit t))] else [])"
proof -
  let ?Y = "Seq (Lit CHR ''h'') (Lit CHR ''-'')"
  let ?F = "\<lambda>r. map (\<lambda>(g', r'). (take (length t - length r) t # g', r')) (ms False ?Y r)"
  have p: "cls_match False Digit = is_digit" by (simp add: fun_eq_iff)
  have F0: "?F (c # cs) = []" if "is_digit c" for c cs
    using is_digit_not_h [OF that] by (simp add: ms_Lit2 split: list.splits)
  have "ms False (Seq (Grp (Plus Digit)) ?Y) t = concat (map ?F (plus_splits is_digit t))"
    by (simp add: ms_Seq_Grp_Plus p)
  also have "\<dots> = (if takeWhile is_digit t \<noteq> [] then ?F (dropWhile is_digit t) else [])"
    by (rule plus_splits_concat) (rule F0)
  also have "\<dots> = (if takeWhile is_digit t \<noteq> [] \<and> take 2 (dropWhile is_digit t) = ''h-''
      then [([takeWhile is_digit t], drop 2 (dropWhile is_digit t))] else [])"
    by (simp only: ms_h_dash length_dropWhile_take) simp
  finally show ?thesis .
qed

lemma ms_hour:
  "ms False hour_pattern s =
     (case hour_at s of None \<Rightarrow> [] | Some ds \<Rightarrow> [([ds], drop 2 (dropWhile is_digit (tl s)))])"
proof (cases s)
  case Nil
  then show ?thesis by (simp add: hour_pattern_def hour_at_def ms_Seq_Lit)
next
  case (Cons c t)
  then show ?thesis
    by (simp add: hour_pattern_def ms_Seq_Lit ms_hour_tail hour_at_def)
qed

lemma hour_at_Some:
  assumes "hour_at s = Some ds"
  shows "ds \<noteq> [] \<and> list_all is_digit ds \<and> (\<exists>post. s = ''-'' @ ds @ ''h-'' @ post)"
proof (cases s)
  case Nil
  with assms show ?thesis by (simp add: hour_at_def)
next
  case (Cons c t)
  with assms have c: "c = CHR ''-''" and ds: "ds = takeWhile is_digit t" and ne: "ds \<noteq> []"
    and h: "take 2 (dropWhile is_digit t) = ''h-''"
    by (auto simp: hour_at_def split: if_splits)
  have "dropWhile is_digit t = take 2 (dropWhile is_digit t) @ drop 2 (dropWhile is_digit t)"
    by simp
  with h have "dropWhile is_digit t = ''h-'' @ drop 2 (dropWhile is_digit t)" by simp
  then have "t = ds @ ''h-'' @ drop 2 (dropWhile is_digit t)"
    using takeWhile_dropWhile_id [of is_digit t] by (simp add: ds)
  with Cons c have "s = ''-'' @ ds @ ''h-'' @ drop 2 (dropWhile is_digit t)" by simp
  moreover have "list_all is_digit ds"
    by (auto simp: ds list_all_iff dest: set_takeWhileD)
  ultimately show ?thesis using ne by blast
qed

lemma hour_at_token:
  assumes "ds \<noteq> []" and "list_all is_digit ds"
  shows "hour_at (''-'' @ ds @ ''h-'' @ post) = Some ds"
proof -
  have nh: "\<not> is_digit CHR ''h''" by (simp add: is_digit_def)
  from assms(2) have all: "\<And>x. x \<in> set ds \<Longrightarrow> is_digit x" by (simp add: list_all_iff)
  have t: "takeWhile is_digit (ds @ CHR ''h'' # CHR ''-'' # post) = ds"
    using all nh by (simp add: takeWhile_append2)
  have d: "dropWhile is_digit (ds @ CHR ''h'' # CHR ''-'' # post) = CHR ''h'' # CHR ''-'' # post"
    using all nh by (simp add: dropWhile_append2)
  show ?thesis using assms(1) by (simp add: hour_at_def t d)
qed

lemma re_search_hour_None:
  "re_search False hour_pattern s = None \<Longrightarrow> hour_at (drop k s) = None"
proof (induction s arbitrary: k)
  case Nil
  then show ?case by (simp add: hour_at_def)
next
  case (Cons c cs)
  from Cons.prems have h: "hour_at (c # cs) = None" and r: "re_search False hour_pattern cs = None"
    by (auto simp: ms_hour split: option.splits list.splits)
  show ?case
  proof (cases k)
    case 0
    with h show ?thesis by simp
  next
    case (Suc j)
    with Cons.IH [OF r, of j] show ?thesis by simp
  qed
qed

lemma re_search_hour_Some:
  "re_search False hour_pattern s = Some g \<Longrightarrow> \<exists>k ds. hour_at (drop k s) = Some ds \<and> g = [ds]"
proof (induction s)
  case Nil
  then show ?case by (simp add: ms_hour hour_at_def)
next
  case (Cons c cs)
  show ?case
  proof (cases "hour_at (c # cs)")
    case None
    with Cons.prems have "re_search False hour_pattern cs = Some g" by (simp add: ms_hour)
    from Cons.IH [OF this] obtain k ds where "hour_at (drop k cs) = Some ds" and "g = [ds]"
      by blast
    then have "hour_at (drop (Suc k) (c # cs)) = Some ds \<and> g = [ds]" by simp
    then show ?thesis by blast
  next
    case (Some ds)
    with Cons.prems have "g = [ds]" by (simp add: ms_hour)
    with Some have "hour_at (drop 0 (c # cs)) = Some ds \<and> g = [ds]" by simp
    then show ?thesis by blast
  qed
qed

lemma forecast_hour_of_token:
  "(if \<exists>ds. hour_token name ds then hour_token name (forecast_hour_of name)
    else forecast_hour_of name = ''unknown'')"
proof (cases "re_search False hour_pattern name")
  case None
  have "\<not> hour_token name ds" for ds
  proof
    assume "hour_token name ds"
    then obtain pre post where n: "name = pre @ ''-'' @ ds @ ''h-'' @ post"
      and ds: "ds \<noteq> []" "list_all is_digit ds"
      by (auto simp: hour_token_def)
    from re_search_hour_None [OF None, of "length pre"] n
    have "hour_at (''-'' @ ds @ ''h-'' @ post) = None" by simp
    with hour_at_token [OF ds, of post] show False by simp
  qed
  with None show ?thesis by (simp add: forecast_hour_of_def)
next
  case (Some g)
  from re_search_hour_Some [OF Some] obtain k ds where h: "hour_at (drop k name) = Some ds"
    and g: "g = [ds]" by blast
  from hour_at_Some [OF h] obtain post where ds: "ds \<noteq> []" "list_all is_digit ds"
    and d: "drop k name = ''-'' @ ds @ ''h-'' @ post" by blast
  have "name = take k name @ drop k name" by simp
  with d have "name = take k name @ ''-'' @ ds @ ''h-'' @ post" by simp
  with ds have "hour_token name ds" unfolding hour_token_def by blast
  moreover from Some g have "forecast_hour_of name = ds" by (simp add: forecast_hour_of_def)
  ultimately show ?thesis by auto
qed

lemma build_files_member:
  "build_files base d ft m r dt matches = Inr files \<Longrightarrow> info \<in> set files \<Longrightarrow>
   \<exists>href name date_time size_digits file_id.
     [href, name, date_time, size_digits, file_id] \<in> set matches \<and>
     filename info = strip name \<and> forecast_hour info = forecast_hour_of name \<and>
     type_s info = get_file_type name \<and> raw_size info = int_of_string size_digits \<and>
     format_file_size (raw_size info) = Inr (size_s info)"
proof (induction matches arbitrary: files)
  case Nil
  then show ?case by simp
next
  case (Cons groups matches)
  show ?case
  proof (cases "\<exists>href name date_time size_digits file_id.
      groups = [href, name, date_time, size_digits, file_id]")
    case True
    then obtain href name date_time size_digits file_id
      where g: "groups = [href, name, date_time, size_digits, file_id]" by blast
    from Cons.prems(1) obtain human rest where
      h: "format_file_size (int_of_string size_digits) = Inr human"
      and r: "build_files base d ft m r dt matches = Inr rest"
      and f: "files = \<lparr>filename = strip name, url = Urljoin base href, date = d,
                forecast_time = ft, model = m, resolution = r, data_type = dt,
                forecast_hour = forecast_hour_of name, size_s = human,
                raw_size = int_of_string size_digits,
                type_s = get_file_type name, modified = date_time\<rparr> # rest"
      by (auto simp: g split: sum.splits)
    show ?thesis
    proof (cases "info \<in> set rest")
      case True
      from Cons.IH [OF r True] obtain href' name' date_time' size_digits' file_id'
        where "[href', name', date_time', size_digits', file_id'] \<in> set matches"
          and "filename info = strip name'" and "forecast_hour info = forecast_hour_of name'"
          and "type_s info = get_file_type name'" and "raw_size info = int_of_string size_digits'"
          and "format_file_size (raw_size info) = Inr (size_s info)"
        by blast
      moreover from this(1) have
        "[href', name', date_time', size_digits', file_id'] \<in> set (groups # matches)"
        by simp
      ultimately show ?thesis by blast
    next
      case False
      with Cons.prems(2) f have "info = \<lparr>filename = strip name, url = Urljoin base href, date = d,
                forecast_time = ft, model = m, resolution = r, data_type = dt,
                forecast_hour = forecast_hour_of name, size_s = human,
                raw_size = int_of_string size_digits,
                type_s = get_file_type name, modified = date_time\<rparr>"
        by simp
      with h have "filename info = strip name" and "forecast_hour info = forecast_hour_of name"
        and "type_s info = get_file_type name" and "raw_size info = int_of_string size_digits"
        and "format_file_size (raw_size info) = Inr (size_s info)"
        by simp_all
      moreover have "[href, name, date_time, size_digits, file_id] \<in> set (groups # matches)"
        by (simp add: g)
      ultimately show ?thesis by blast
    qed
  next
    case False
    then have "build_files base d ft m r dt (groups # matches) = build_files base d ft m r dt matches"
      by (auto split: list.splits)
    with Cons.prems(1) have "build_files base d ft m r dt matches = Inr files" by simp
    from Cons.IH [OF this Cons.prems(2)] obtain href' name' date_time' size_digits' file_id'
      where "[href', name', date_time', size_digits', file_id'] \<in> set matches"
        and "filename info = strip name'" and "forecast_hour info = forecast_hour_of name'"
        and "type_s info = get_file_type name'" and "raw_size info = int_of_string size_digits'"
        and "format_file_size (raw_size info) = Inr (size_s info)"
      by blast
    moreover from this(1) have
      "[href', name', date_time', size_digits', file_id'] \<in> set (groups # matches)"
      by simp
    ultimately show ?thesis by blast
  qed
qed

lemma endswith_suffix: "endswith s suf = suffix suf s"
proof
  assume "endswith s suf"
  then have "s = take (length s - length suf) s @ suf"
    by (metis append_take_drop_id endswith_def)
  then show "suffix suf s" by (metis suffixI)
next
  assume "suffix suf s"
  then obtain zs where "s = zs @ suf" by (auto simp: suffix_def)
  then show "endswith s suf" by (simp add: endswith_def)
qed

subsection \<open>The date pattern on eight digits\<close>


























subsection \<open>Derived fields of the records\<close>

text \<open>
  C7. The forecast hour of every record the parser returns is \<open>forecast_hour_of\<close> of the
  display name of its match. If the name holds a token \<open>-<digits>h-\<close>, the result is the
  digit string of such a token (the leftmost match); otherwise it is \<open>unknown\<close>. The name
  \<open>20250617120000-6h-oper-fc.grib2\<close> gives \<open>6\<close>.
\<close>

theorem forecast_hour_extraction:
  "(parse_data_files cfg html d ft m r dt = Inr files \<and> info \<in> set files \<longrightarrow>
      (\<exists>href name date_time size_digits file_id.
         [href, name, date_time, size_digits, file_id] \<in> set (re_findall True file_pattern html) \<and>
         filename info = strip name \<and> forecast_hour info = forecast_hour_of name))
   \<and> (if \<exists>ds. hour_token name ds then hour_token name (forecast_hour_of name)
       else forecast_hour_of name = ''unknown'')
   \<and> forecast_hour_of ''20250617120000-6h-oper-fc.grib2'' = ''6''"
proof (intro conjI impI)
  assume "parse_data_files cfg html d ft m r dt = Inr files \<and> info \<in> set files"
  then have "build_files
       (base_url cfg @ d @ ''/'' @ ft @ ''/'' @ m @ ''/'' @ r @ ''/'' @ dt @ ''/'')
       d ft m r dt (re_findall True file_pattern html) = Inr files" and "info \<in> set files"
    by (simp_all add: parse_data_files_def)
  from build_files_member [OF this]
  show "\<exists>href name date_time size_digits file_id.
         [href, name, date_time, size_digits, file_id] \<in> set (re_findall True file_pattern html) \<and>
         filename info = strip name \<and> forecast_hour info = forecast_hour_of name"
    by blast
next
  show "if \<exists>ds. hour_token name ds then hour_token name (forecast_hour_of name)
       else forecast_hour_of name = ''unknown''"
    by (rule forecast_hour_of_token)
next
  show "forecast_hour_of ''20250617120000-6h-oper-fc.grib2'' = ''6''" by code_simp
qed

theorem forecast_hour_extraction_witness:
  "parse_data_files example_config example_listing ''20250617'' ''12z'' ''ifs'' ''0p25'' ''oper'' =
     Inr (projr (parse_data_files example_config example_listing ''20250617'' ''12z'' ''ifs'' ''0p25'' ''oper''))
   \<and> map forecast_hour (projr (parse_data_files example_config example_listing
         ''20250617'' ''12z'' ''ifs'' ''0p25'' ''oper'')) = [''6'']
   \<and> hour_token ''a-12h-b'' ''12'' \<and> forecast_hour_of ''a-12h-b'' = ''12''
   \<and> (\<exists>href name date_time size_digits file_id.
         [href, name, date_time, size_digits, file_id] \<in> set (re_findall True file_pattern example_listing) \<and>
         forecast_hour_of name = ''6'')"
proof -
  let ?p = "parse_data_files example_config example_listing ''20250617'' ''12z'' ''ifs'' ''0p25'' ''oper''"
  have p: "?p = Inr (projr ?p)" by code_simp
  have h: "map forecast_hour (projr ?p) = [''6'']" by code_simp
  then have i: "hd (projr ?p) \<in> set (projr ?p)" and f: "forecast_hour (hd (projr ?p)) = ''6''"
    by (cases "projr ?p"; simp)+
  have "\<exists>pre post. ''a-12h-b'' = pre @ ''-'' @ ''12'' @ ''h-'' @ post"
    by (rule exI [of _ "''a''"], rule exI [of _ "''b''"]) simp
  then have t: "hour_token ''a-12h-b'' ''12''"
    by (simp add: hour_token_def is_digit_def)
  have e: "forecast_hour_of ''a-12h-b'' = ''12''" by code_simp
  from forecast_hour_extraction [of example_config example_listing "''20250617''" "''12z''" "''ifs''"
      "''0p25''" "''oper''" "projr ?p" "hd (projr ?p)" "''a-12h-b''"]
  have "?p = Inr (projr ?p) \<and> hd (projr ?p) \<in> set (projr ?p) \<longrightarrow>
      (\<exists>href name date_time size_digits file_id.
         [href, name, date_time, size_digits, file_id] \<in> set (re_findall True file_pattern example_listing) \<and>
         filename (hd (projr ?p)) = strip name \<and>
         forecast_hour (hd (projr ?p)) = forecast_hour_of name)"
    by (rule conjunct1)
  with p i obtain href name date_time size_digits file_id where
    "[href, name, date_time, size_digits, file_id] \<in> set (re_findall True file_pattern example_listing)"
    and "forecast_hour (hd (projr ?p)) = forecast_hour_of name"
    by blast
  with f have "\<exists>href name date_time size_digits file_id.
         [href, name, date_time, size_digits, file_id] \<in> set (re_findall True file_pattern example_listing) \<and>
         forecast_hour_of name = ''6''"
    by metis
  with p h t e show ?thesis by blast
qed

text \<open>
  C5, as the code has it. The kind of every record the parser returns is one of GRIB,
  NetCDF, Index and Unknown, and it is a function of the display name of its match as
  scanned: the suffix is compared case-sensitively, \<open>.grib\<close> and \<open>.grib2\<close> give GRIB,
  \<open>.nc\<close> and \<open>.netcdf\<close> give NetCDF, \<open>.idx\<close> gives Index, anything else Unknown.
\<close>

theorem file_type_by_display_name:
  assumes "parse_data_files cfg html d ft m r dt = Inr files" and "info \<in> set files"
  shows "type_s info \<in> {''GRIB'', ''NetCDF'', ''Index'', ''Unknown''}
    \<and> (\<exists>href name date_time size_digits file_id.
         [href, name, date_time, size_digits, file_id] \<in> set (re_findall True file_pattern html) \<and>
         filename info = strip name \<and>
         type_s info =
           (if suffix ''.grib'' name \<or> suffix ''.grib2'' name then ''GRIB''
            else if suffix ''.nc'' name \<or> suffix ''.netcdf'' name then ''NetCDF''
            else if suffix ''.idx'' name then ''Index''
            else ''Unknown''))"
proof -
  from assms have "build_files
       (base_url cfg @ d @ ''/'' @ ft @ ''/'' @ m @ ''/'' @ r @ ''/'' @ dt @ ''/'')
       d ft m r dt (re_findall True file_pattern html) = Inr files"
    by (simp add: parse_data_files_def)
  from build_files_member [OF this assms(2)]
  obtain href name date_time size_digits file_id where
    m: "[href, name, date_time, size_digits, file_id] \<in> set (re_findall True file_pattern html)"
    and f: "filename info = strip name" and t: "type_s info = get_file_type name"
    by blast
  have g: "get_file_type name =
           (if suffix ''.grib'' name \<or> suffix ''.grib2'' name then ''GRIB''
            else if suffix ''.nc'' name \<or> suffix ''.netcdf'' name then ''NetCDF''
            else if suffix ''.idx'' name then ''Index''
            else ''Unknown'')"
    by (simp add: get_file_type_def endswith_suffix)
  have "type_s info \<in> {''GRIB'', ''NetCDF'', ''Index'', ''Unknown''}"
    unfolding t get_file_type_def by simp
  moreover from m f t g have "\<exists>href name date_time size_digits file_id.
         [href, name, date_time, size_digits, file_id] \<in> set (re_findall True file_pattern html) \<and>
         filename info = strip name \<and>
         type_s info =
           (if suffix ''.grib'' name \<or> suffix ''.grib2'' name then ''GRIB''
            else if suffix ''.nc'' name \<or> suffix ''.netcdf'' name then ''NetCDF''
            else if suffix ''.idx'' name then ''Index''
            else ''Unknown'')"
    by metis
  ultimately show ?thesis by blast
qed

theorem file_type_by_display_name_witness:
  "parse_data_files example_config example_listing ''20250617'' ''12z'' ''ifs'' ''0p25'' ''oper'' =
     Inr (projr (parse_data_files example_config example_listing ''20250617'' ''12z'' ''ifs'' ''0p25'' ''oper''))
   \<and> map type_s (projr (parse_data_files example_config example_listing
         ''20250617'' ''12z'' ''ifs'' ''0p25'' ''oper'')) = [''GRIB'']
   \<and> ''GRIB'' \<in> {''GRIB'', ''NetCDF'', ''Index'', ''Unknown''}"
proof -
  let ?p = "parse_data_files example_config example_listing ''20250617'' ''12z'' ''ifs'' ''0p25'' ''oper''"
  have p: "?p = Inr (projr ?p)" by code_simp
  have h: "map type_s (projr ?p) = [''GRIB'']" by code_simp
  then have i: "hd (projr ?p) \<in> set (projr ?p)" and f: "type_s (hd (projr ?p)) = ''GRIB''"
    by (cases "projr ?p"; simp)+
  from file_type_by_display_name [OF p i] f
  have "''GRIB'' \<in> {''GRIB'', ''NetCDF'', ''Index'', ''Unknown''}" by simp
  with p h show ?thesis by blast
qed

text \<open>
  The listing entry \<open>F.GRIB2\<close> is admitted by the case-insensitive pattern and gets the
  kind Unknown, where the suffix read without regard to case gives GRIB.
\<close>

theorem file_type_case_counterexample:
  "parse_data_files example_config upper_case_listing ''20250617'' ''12z'' ''ifs'' ''0p25'' ''oper'' =
     Inr (projr (parse_data_files example_config upper_case_listing ''20250617'' ''12z'' ''ifs'' ''0p25'' ''oper''))
   \<and> map filename (projr (parse_data_files example_config upper_case_listing
         ''20250617'' ''12z'' ''ifs'' ''0p25'' ''oper'')) = [''F.GRIB2'']
   \<and> map type_s (projr (parse_data_files example_config upper_case_listing
         ''20250617'' ''12z'' ''ifs'' ''0p25'' ''oper'')) = [''Unknown'']
   \<and> kind_by_suffix_ci ''F.GRIB2'' = ''GRIB''"
  by code_simp

section \<open>Properties of the listing call\<close>







end
